theory Spec2Isabelle
  imports Complex_Main "HOL-Library.Log_Nat" "HOL-Library.Multiset"
begin

section \<open>JavaScript Numbers\<close>

text \<open>
  The estimator of \<^verbatim>\<open>src/backend/index.js\<close> computes with JavaScript Numbers, that is
  with IEEE-754 doubles. A finite double is modelled by the rational number it denotes,
  and every arithmetic operation returns the exact result rounded to the nearest double,
  ties to even (53 significant bits). The exponent range is not bounded: gas prices are
  chain quantities of at most 256 bits, far below \<open>2 ^ 1024\<close> where a double overflows,
  and no result of this program that is compared or returned is small enough to be
  subnormal.
  Numbers that are integral by construction (the results of \<^verbatim>\<open>parseInt\<close> and
  \<^verbatim>\<open>Math.floor\<close>, array lengths and indices) have type \<open>int\<close>.
\<close>

definition round_half_even :: "rat \<Rightarrow> int" where
  "round_half_even y =
     (let f = \<lfloor>y\<rfloor>; r = y - of_int f
      in if r < 1 / 2 then f else if 1 / 2 < r then f + 1 else if even f then f else f + 1)"

text \<open>The exponent \<open>e\<close> of the binade of a positive \<open>x\<close>: \<open>2 ^ e \<le> x < 2 ^ (e + 1)\<close>.\<close>

definition binade :: "rat \<Rightarrow> int" where
  "binade x =
     (let (p, q) = quotient_of x; e = bitlen p - bitlen q
      in if 2 powi e \<le> x then e else e - 1)"

definition rnd :: "rat \<Rightarrow> rat" where
  "rnd x =
     (if x = 0 then 0
      else let a = \<bar>x\<bar>; u = 2 powi (binade a - 52)
           in sgn x * (of_int (round_half_even (a / u)) * u))"

definition fsub :: "rat \<Rightarrow> rat \<Rightarrow> rat" where
  "fsub a b = rnd (a - b)"

definition fmul :: "rat \<Rightarrow> rat \<Rightarrow> rat" where
  "fmul a b = rnd (a * b)"

definition fdiv :: "rat \<Rightarrow> rat \<Rightarrow> rat" where
  "fdiv a b = rnd (a / b)"

text \<open>A decimal literal of the source text denotes the double nearest to it.\<close>

definition literal :: "rat \<Rightarrow> rat" where
  "literal d = rnd d"

definition Math_floor :: "rat \<Rightarrow> int" where
  "Math_floor x = \<lfloor>x\<rfloor>"

text \<open>
  \<^verbatim>\<open>parseInt(v.toString())\<close> for a BigNumber \<open>v\<close>: the decimal string of
  \<open>v\<close> read back as a Number, which is \<open>v\<close> rounded to a double. The rounded value is
  integral (\<open>parseInt_integral\<close> below), so the floor only changes the type.
\<close>

definition parseInt :: "int \<Rightarrow> int" where
  "parseInt v = \<lfloor>rnd (of_int v)\<rfloor>"

subsection \<open>Number.prototype.toString\<close>

text \<open>
  For a positive integral Number \<open>x\<close>, ECMAScript takes integers \<open>n\<close>, \<open>k\<close> and \<open>s\<close>
  with \<open>10 ^ (k - 1) \<le> s < 10 ^ k\<close> such that \<open>s * 10 ^ (n - k)\<close> reads back as \<open>x\<close>
  and \<open>k\<close> is as small as possible; of several such \<open>s\<close> the one whose value is
  nearest to \<open>x\<close>, then the even one. Up to \<open>n = 21\<close> it prints the digits of \<open>s\<close>
  followed by \<open>n - k\<close> zeros, beyond that the digits with an exponent.
  With \<open>n\<close> the number of digits of \<open>x\<close>, the candidates with \<open>k\<close> digits are \<open>x\<close> cut
  to \<open>k\<close> digits and its successor; the successor of \<open>99...9\<close> is \<open>10...0\<close> with one
  more digit in front of the zeros.
\<close>

definition digit_char :: "int \<Rightarrow> char" where
  "digit_char d = ''0123456789'' ! nat d"

function digits10 :: "int \<Rightarrow> string" where
  "digits10 n = (if n < 10 then [digit_char n] else digits10 (n div 10) @ [digit_char (n mod 10)])"
  by pat_completeness auto
termination
  by (relation "measure nat") auto

declare digits10.simps [simp del]

definition digit_candidates :: "int \<Rightarrow> nat \<Rightarrow> nat \<Rightarrow> (int \<times> nat) list" where
  "digit_candidates x n k =
     (let lo = x div 10 ^ (n - k);
          up = (if lo + 1 < 10 ^ k then (lo + 1, n) else (10 ^ (k - 1), Suc n))
      in filter (\<lambda>(s, m). 10 ^ (k - 1) \<le> s \<and> s < 10 ^ k \<and> parseInt (s * 10 ^ (m - k)) = x)
           [(lo, n), up])"

definition nearest_candidate :: "int \<Rightarrow> nat \<Rightarrow> (int \<times> nat) list \<Rightarrow> int \<times> nat" where
  "nearest_candidate x k cs =
     (case cs of
        [(lo, m), (hi, m')] \<Rightarrow>
          (let dl = x - lo * 10 ^ (m - k); dh = hi * 10 ^ (m' - k) - x
           in if dl < dh then (lo, m) else if dh < dl then (hi, m')
              else if even lo then (lo, m) else (hi, m'))
      | c # _ \<Rightarrow> c
      | [] \<Rightarrow> (x, k))"

text \<open>The triple \<open>(k, s, n)\<close>.\<close>

definition shortest_digits :: "int \<Rightarrow> nat \<times> int \<times> nat" where
  "shortest_digits x =
     (let n = length (digits10 x)
      in case List.find (\<lambda>k. digit_candidates x n k \<noteq> []) [1..<Suc n] of
           Some k \<Rightarrow> (k, nearest_candidate x k (digit_candidates x n k))
         | None \<Rightarrow> (n, x, n))"

definition toString_pos :: "int \<Rightarrow> string" where
  "toString_pos x =
     (case shortest_digits x of (k, s, n) \<Rightarrow>
        (let ds = digits10 s
         in if n \<le> 21 then ds @ replicate (n - k) (CHR ''0'')
            else if k = 1 then ds @ ''e+'' @ digits10 (int n - 1)
            else hd ds # ''.'' @ tl ds @ ''e+'' @ digits10 (int n - 1)))"

definition Number_toString :: "int \<Rightarrow> string" where
  "Number_toString v =
     (if v = 0 then ''0''
      else if v < 0 then ''-'' @ toString_pos (- v)
      else toString_pos v)"

section \<open>The chain data source\<close>

text \<open>
  A transaction as the provider returns it: \<open>gasPrice\<close> is a BigNumber (an integer of
  arbitrary size) or absent, \<open>data\<close> is the payload as a hex string.
\<close>

record transaction =
  gasPrice :: "int option"
  data :: string

record block =
  transactions :: "transaction list option"
  timestamp :: nat

text \<open>
  The provider, as far as \<open>calculateGasPrices\<close> uses it. A call either resolves
  (\<open>Inr\<close>) or rejects with an error message (\<open>Inl\<close>). A block fetch also carries the
  time at which its promise settles: \<open>Promise.all\<close> rejects with the rejection that
  settles first. \<open>getBlockWithTransactions\<close> may resolve to \<open>null\<close> (\<open>None\<close>).
\<close>

record provider =
  getBlockNumber :: "string + int"
  getBlockWithTransactions :: "int \<Rightarrow> nat \<times> (string + block option)"
  getGasPrice :: "string + int"

definition BLOCKS_TO_ANALYZE :: nat where
  "BLOCKS_TO_ANALYZE = 20"

definition Promise_all :: "(nat \<times> (string + 'a)) list \<Rightarrow> string + 'a list" where
  "Promise_all ps =
     (case filter (\<lambda>p. isl (snd p)) ps of
        [] \<Rightarrow> Inr (map (\<lambda>p. projr (snd p)) ps)
      | f # fs \<Rightarrow> Inl (projl (snd (arg_min_list fst (f # fs)))))"

definition blockPromises :: "provider \<Rightarrow> int \<Rightarrow> (nat \<times> (string + block option)) list" where
  "blockPromises p latestBlockNumber =
     map (\<lambda>i. getBlockWithTransactions p (latestBlockNumber - int i)) [0..<BLOCKS_TO_ANALYZE]"

section \<open>Sample extraction and classification\<close>

record priceSample =
  price :: int
  blockAge :: nat
  isContractCall :: bool
  sample_timestamp :: nat

text \<open>The three arrays the extraction loop fills.\<close>

record extraction =
  gasPrices :: "priceSample list"
  simple :: "int list"
  contract :: "int list"

definition no_samples :: extraction where
  "no_samples = \<lparr>gasPrices = [], simple = [], contract = []\<rparr>"

text \<open>The body of the inner loop, for one transaction of the block at \<open>blockIndex\<close>.\<close>

definition push_tx :: "nat \<Rightarrow> nat \<Rightarrow> extraction \<Rightarrow> transaction \<Rightarrow> extraction" where
  "push_tx blockIndex ts st tx =
     (case gasPrice tx of
        None \<Rightarrow> st
      | Some g \<Rightarrow>
          if 0 < g then
            let p = parseInt g;
                st' = st\<lparr>gasPrices := gasPrices st @
                        [\<lparr>price = p, blockAge = blockIndex,
                          isContractCall = (data tx \<noteq> ''0x'' \<and> 2 < length (data tx)),
                          sample_timestamp = ts\<rparr>]\<rparr>
            in if data tx = ''0x'' \<or> length (data tx) \<le> 2
               then st'\<lparr>simple := simple st' @ [p]\<rparr>
               else st'\<lparr>contract := contract st' @ [p]\<rparr>
          else st)"

definition push_block :: "nat \<Rightarrow> extraction \<Rightarrow> block option \<Rightarrow> extraction" where
  "push_block blockIndex st b =
     (case b of
        None \<Rightarrow> st
      | Some blk \<Rightarrow>
          (case transactions blk of
             None \<Rightarrow> st
           | Some txs \<Rightarrow> foldl (push_tx blockIndex (timestamp blk)) st txs))"

fun scan_blocks :: "nat \<Rightarrow> block option list \<Rightarrow> extraction \<Rightarrow> extraction" where
  "scan_blocks blockIndex [] st = st"
| "scan_blocks blockIndex (b # bs) st = scan_blocks (Suc blockIndex) bs (push_block blockIndex st b)"

section \<open>Congestion-aware tier selection\<close>

definition primaryPrices :: "extraction \<Rightarrow> int list" where
  "primaryPrices ex =
     (let contractCallPrices = sort (contract ex)
      in if 0 < length contractCallPrices then contractCallPrices
         else sort (map price (gasPrices ex)))"

definition congestionLevel :: "int list \<Rightarrow> rat" where
  "congestionLevel ps =
     (let priceRange = fsub (of_int (last ps)) (of_int (hd ps))
      in fdiv priceRange (of_int (hd ps)))"

text \<open>The triple (safeLowPercentile, standardPercentile, fastPercentile).\<close>

definition percentiles :: "rat \<Rightarrow> rat \<times> rat \<times> rat" where
  "percentiles c =
     (if literal (5 / 10) < c then (literal (1 / 10), literal (4 / 10), literal (7 / 10))
      else if literal (2 / 10) < c then (literal (15 / 100), literal (45 / 100), literal (75 / 100))
      else (literal (2 / 10), literal (5 / 10), literal (8 / 10)))"

text \<open>The triple (safeLowIndex, standardIndex, fastIndex) for an array of length \<open>len\<close>.\<close>

definition tierIndices :: "nat \<Rightarrow> rat \<times> rat \<times> rat \<Rightarrow> int \<times> int \<times> int" where
  "tierIndices len pc =
     (case pc of (safeLowPercentile, standardPercentile, fastPercentile) \<Rightarrow>
        (max 0 (Math_floor (fmul (of_nat len) safeLowPercentile) - 1),
         Math_floor (fmul (of_nat len) standardPercentile),
         min (int len - 1) (Math_floor (fmul (of_nat len) fastPercentile))))"

text \<open>Reading an array: \<^verbatim>\<open>undefined\<close> (\<open>None\<close>) outside its bounds.\<close>

definition array_get :: "'a list \<Rightarrow> int \<Rightarrow> 'a option" where
  "array_get xs i = (if 0 \<le> i \<and> i < int (length xs) then Some (xs ! nat i) else None)"

text \<open>
  The values a JavaScript variable of the result can hold. Both functions below build
  their result with \<^verbatim>\<open>toString()\<close>.
\<close>

datatype jsvalue = JSNumber int | JSString string

record gasEstimate =
  safeLow :: jsvalue
  standard :: jsvalue
  fast :: jsvalue

definition undefined_toString :: string where
  "undefined_toString = ''Cannot read properties of undefined (reading 'toString')''"

text \<open>
  The numeric tiers \<open>(safeLow, standard, fast)\<close> read from the reference sequence
  (lines 79 to 108); \<open>None\<close> when a read is outside the array.
\<close>

definition selectTiers :: "int list \<Rightarrow> (int \<times> int \<times> int) option" where
  "selectTiers ps =
     (case tierIndices (length ps) (percentiles (congestionLevel ps)) of
        (safeLowIndex, standardIndex, fastIndex) \<Rightarrow>
          (case (array_get ps safeLowIndex, array_get ps standardIndex, array_get ps fastIndex) of
             (Some lo, Some mid, Some hi) \<Rightarrow> Some (lo, mid, hi)
           | _ \<Rightarrow> None))"

definition fallbackTiers :: "int \<Rightarrow> int \<times> int \<times> int" where
  "fallbackTiers basePrice =
     (Math_floor (fmul (of_int basePrice) (literal (7 / 10))),
      basePrice,
      Math_floor (fmul (of_int basePrice) (literal (15 / 10))))"

definition stringify :: "int \<times> int \<times> int \<Rightarrow> gasEstimate" where
  "stringify t =
     (case t of (lo, mid, hi) \<Rightarrow>
        \<lparr>safeLow = JSString (Number_toString lo),
         standard = JSString (Number_toString mid),
         fast = JSString (Number_toString hi)\<rparr>)"

definition calculateFallbackGasPrices :: "provider \<Rightarrow> string + gasEstimate" where
  "calculateFallbackGasPrices p =
     (case getGasPrice p of
        Inl msg \<Rightarrow> Inl (''Fallback calculation failed: '' @ msg)
      | Inr baseGasPrice \<Rightarrow> Inr (stringify (fallbackTiers (parseInt baseGasPrice))))"

definition failed :: "string \<Rightarrow> string" where
  "failed msg = ''Failed to calculate gas prices: '' @ msg"

definition calculateGasPrices :: "provider \<Rightarrow> string + gasEstimate" where
  "calculateGasPrices p =
     (case getBlockNumber p of
        Inl msg \<Rightarrow> Inl (failed msg)
      | Inr latestBlockNumber \<Rightarrow>
          (case Promise_all (blockPromises p latestBlockNumber) of
             Inl msg \<Rightarrow> Inl (failed msg)
           | Inr blocks \<Rightarrow>
               (let ex = scan_blocks 0 blocks no_samples
                in if 0 < length (gasPrices ex) then
                     (case selectTiers (primaryPrices ex) of
                        None \<Rightarrow> Inl (failed undefined_toString)
                      | Some t \<Rightarrow> Inr (stringify t))
                   else
                     (case calculateFallbackGasPrices p of
                        Inl msg \<Rightarrow> Inl (failed msg)
                      | Inr r \<Rightarrow> Inr r))))"

section \<open>The extraction as the specification words it\<close>

text \<open>
  Section 4.2 of the specification: a transaction yields a sample only if its price is
  present and strictly positive; it is a contract call when it carries a payload beyond
  the bare-transfer marker \<^verbatim>\<open>0x\<close>. These definitions follow that wording and are
  compared with the loop of the source below.
\<close>

definition carries_payload :: "string \<Rightarrow> bool" where
  "carries_payload d = (d \<noteq> ''0x'' \<and> 2 < length d)"

definition spec_sample :: "nat \<Rightarrow> nat \<Rightarrow> transaction \<Rightarrow> priceSample list" where
  "spec_sample age ts tx =
     (case gasPrice tx of
        None \<Rightarrow> []
      | Some g \<Rightarrow>
          if 0 < g
          then [\<lparr>price = parseInt g, blockAge = age, isContractCall = carries_payload (data tx),
                 sample_timestamp = ts\<rparr>]
          else [])"

definition block_samples :: "nat \<Rightarrow> block option \<Rightarrow> priceSample list" where
  "block_samples age b =
     (case b of
        None \<Rightarrow> []
      | Some blk \<Rightarrow>
          (case transactions blk of
             None \<Rightarrow> []
           | Some txs \<Rightarrow> concat (map (spec_sample age (timestamp blk)) txs)))"

fun spec_samples :: "nat \<Rightarrow> block option list \<Rightarrow> priceSample list" where
  "spec_samples age [] = []"
| "spec_samples age (b # bs) = block_samples age b @ spec_samples (Suc age) bs"

text \<open>The three arrays after the samples \<open>S\<close> have been pushed.\<close>

definition pushed :: "extraction \<Rightarrow> priceSample list \<Rightarrow> extraction" where
  "pushed st S =
     \<lparr>gasPrices = gasPrices st @ S,
      simple = simple st @ map price (filter (\<lambda>s. \<not> isContractCall s) S),
      contract = contract st @ map price (filter isContractCall S)\<rparr>"




section \<open>Example windows\<close>

text \<open>
  A provider at height 5000000 whose newest block holds the given transactions, the other
  19 blocks of the window being empty, and whose current gas price is \<open>base\<close>.
\<close>

definition transfer :: "int \<Rightarrow> transaction" where
  "transfer g = \<lparr>gasPrice = Some g, data = ''0x''\<rparr>"

definition contract_call :: "int \<Rightarrow> transaction" where
  "contract_call g = \<lparr>gasPrice = Some g, data = ''0xa9059cbb''\<rparr>"

definition window_of :: "transaction list \<Rightarrow> int \<Rightarrow> provider" where
  "window_of txs base =
     \<lparr>getBlockNumber = Inr 5000000,
      getBlockWithTransactions =
        (\<lambda>number. (0, Inr (Some \<lparr>transactions = Some (if number = 5000000 then txs else []),
                                      timestamp = 1000\<rparr>))),
      getGasPrice = Inr base\<rparr>"

definition one_block :: "transaction list \<Rightarrow> block option list" where
  "one_block txs = [Some \<lparr>transactions = Some txs, timestamp = 1000\<rparr>]"

text \<open>The 20 blocks that \<open>window_of txs base\<close> serves, newest first.\<close>

definition window_blocks :: "transaction list \<Rightarrow> block option list" where
  "window_blocks txs =
     Some \<lparr>transactions = Some txs, timestamp = 1000\<rparr>
       # replicate 19 (Some \<lparr>transactions = Some [], timestamp = 1000\<rparr>)"



text \<open>The same window, except that the fetch of its 17th block rejects.\<close>

definition failing_window :: "transaction list \<Rightarrow> int \<Rightarrow> provider" where
  "failing_window txs base =
     (window_of txs base)\<lparr>getBlockWithTransactions :=
        (\<lambda>number. if number = 5000000 - 16 then (3, Inl ''timeout'')
                   else getBlockWithTransactions (window_of txs base) number)\<rparr>"

section \<open>Rounding to the nearest double\<close>

lemma round_half_even_close:
  "\<bar>of_int (round_half_even y) - y\<bar> \<le> 1 / 2"
proof -
  have "of_int \<lfloor>y\<rfloor> \<le> y" "y < of_int \<lfloor>y\<rfloor> + 1" by linarith+
  then show ?thesis
    unfolding round_half_even_def Let_def by (auto simp: abs_le_iff)
qed

lemma round_half_even_of_int [simp]: "round_half_even (of_int k) = k"
  by (simp add: round_half_even_def)

lemma round_half_even_mono:
  assumes "x \<le> y" shows "round_half_even x \<le> round_half_even y"
proof (cases "\<lfloor>x\<rfloor> = \<lfloor>y\<rfloor>")
  case True
  then show ?thesis using assms
    unfolding round_half_even_def Let_def by auto
next
  case False
  have "\<lfloor>x\<rfloor> \<le> \<lfloor>y\<rfloor>" using assms by (rule floor_mono)
  with False have lt: "\<lfloor>x\<rfloor> + 1 \<le> \<lfloor>y\<rfloor>" by simp
  have "round_half_even x \<le> \<lfloor>x\<rfloor> + 1"
    unfolding round_half_even_def Let_def by auto
  moreover have "\<lfloor>y\<rfloor> \<le> round_half_even y"
    unfolding round_half_even_def Let_def by auto
  ultimately show ?thesis using lt by linarith
qed


lemma binade_bounds:
  assumes "0 < x"
  shows "2 powi (binade x) \<le> x" and "x < 2 powi (binade x + 1)"
proof -
  obtain p q where pq: "quotient_of x = (p, q)" by (cases "quotient_of x")
  have q: "0 < q" using pq by (rule quotient_of_denom_pos)
  have x: "x = of_int p / of_int q" using pq by (rule quotient_of_div)
  have p: "0 < p" using assms q unfolding x by (simp add: zero_less_divide_iff)
  define e where "e = bitlen p - bitlen q"
  have bp: "2 ^ nat (bitlen p - 1) \<le> p" "p < 2 ^ nat (bitlen p)"
    using bitlen_bounds [OF p] by auto
  have bq: "2 ^ nat (bitlen q - 1) \<le> q" "q < 2 ^ nat (bitlen q)"
    using bitlen_bounds [OF q] by auto
  have lp: "1 \<le> bitlen p" using p by (simp add: bitlen_alt_def)
  have lq: "1 \<le> bitlen q" using q by (simp add: bitlen_alt_def)
  have P1: "(2::rat) powi (bitlen p - 1) \<le> of_int p"
  proof -
    have "(of_int (2 ^ nat (bitlen p - 1)) :: rat) \<le> of_int p"
      using bp(1) by (simp only: of_int_le_iff)
    then show ?thesis using lp by (simp add: power_int_def)
  qed
  have P2: "of_int p < (2::rat) powi (bitlen p)"
  proof -
    have "(of_int p :: rat) < of_int (2 ^ nat (bitlen p))"
      using bp(2) by (simp only: of_int_less_iff)
    then show ?thesis using lp by (simp add: power_int_def)
  qed
  have Q1: "(2::rat) powi (bitlen q - 1) \<le> of_int q"
  proof -
    have "(of_int (2 ^ nat (bitlen q - 1)) :: rat) \<le> of_int q"
      using bq(1) by (simp only: of_int_le_iff)
    then show ?thesis using lq by (simp add: power_int_def)
  qed
  have Q2: "of_int q < (2::rat) powi (bitlen q)"
  proof -
    have "(of_int q :: rat) < of_int (2 ^ nat (bitlen q))"
      using bq(2) by (simp only: of_int_less_iff)
    then show ?thesis using lq by (simp add: power_int_def)
  qed
  have qpos: "(0::rat) < of_int q" using q by simp
  have up: "x < 2 powi (e + 1)"
  proof -
    have "x * of_int q = of_int p" using qpos unfolding x by simp
    also have "\<dots> < 2 powi (bitlen p)" by (rule P2)
    also have "\<dots> = 2 powi (e + 1) * 2 powi (bitlen q - 1)"
      unfolding e_def by (simp flip: power_int_add)
    also have "\<dots> \<le> 2 powi (e + 1) * of_int q"
      by (rule mult_left_mono [OF Q1]) simp
    finally show ?thesis using qpos by simp
  qed
  have low: "2 powi (e - 1) < x"
  proof -
    have "(2::rat) powi (e - 1) * of_int q < 2 powi (e - 1) * 2 powi (bitlen q)"
      by (rule mult_strict_left_mono [OF Q2]) simp
    also have "\<dots> = 2 powi (bitlen p - 1)"
      unfolding e_def by (simp flip: power_int_add)
    also have "\<dots> \<le> of_int p" by (rule P1)
    also have "\<dots> = x * of_int q" using qpos unfolding x by simp
    finally show ?thesis using qpos by simp
  qed
  have b: "binade x = (if 2 powi e \<le> x then e else e - 1)"
    unfolding binade_def pq e_def by simp
  show "2 powi (binade x) \<le> x"
    using low unfolding b by auto
  show "x < 2 powi (binade x + 1)"
    using up unfolding b by (auto simp: not_le)
qed


lemma p2_add: "(2::rat) powi a * 2 powi b = 2 powi (a + b)"
  by (simp add: power_int_add)

lemma p2_less: "(2::rat) powi a < 2 powi b \<Longrightarrow> a < b"
  by (metis linorder_not_le one_le_numeral power_int_increasing)

lemma p2_shift52: "(2::rat) ^ 52 * 2 powi (e - 52) = 2 powi e"
  using p2_add [of 52 "e - 52"] by simp

lemma p2_shift53: "(2::rat) ^ 53 * 2 powi (e - 52) = 2 powi (e + 1)"
proof -
  have "(2::rat) powi 53 * 2 powi (e - 52) = 2 powi (53 + (e - 52))" by (rule p2_add)
  also have "53 + (e - 52) = e + 1" by simp
  finally show ?thesis by simp
qed

lemma p2_half: "1 / 2 * (2::rat) powi (e - 52) = 2 powi (e - 53)"
proof -
  have "(2::rat) powi (- 1) * 2 powi (e - 52) = 2 powi (- 1 + (e - 52))" by (rule p2_add)
  also have "- 1 + (e - 52) = e - 53" by simp
  finally show ?thesis by (simp add: power_int_minus)
qed

lemma rnd_pos_eq:
  assumes "0 < x"
  shows "rnd x = of_int (round_half_even (x / 2 powi (binade x - 52))) * 2 powi (binade x - 52)"
  using assms by (simp add: rnd_def Let_def)

lemma rnd_0 [simp]: "rnd 0 = 0"
  by (simp add: rnd_def)

lemma rnd_minus: "rnd (- x) = - rnd x"
  by (simp add: rnd_def Let_def sgn_minus)

lemma scaled_bounds:
  assumes "0 < x"
  shows "2 ^ 52 \<le> x / 2 powi (binade x - 52)" and "x / 2 powi (binade x - 52) < 2 ^ 53"
proof -
  note b = binade_bounds [OF assms]
  have u: "(0::rat) < 2 powi (binade x - 52)" by simp
  show "2 ^ 52 \<le> x / 2 powi (binade x - 52)"
    using b(1) u p2_shift52 [of "binade x"] by (simp only: pos_le_divide_eq)
  show "x / 2 powi (binade x - 52) < 2 ^ 53"
    using b(2) u p2_shift53 [of "binade x"] by (simp only: pos_divide_less_eq)
qed

lemma mantissa_bounds:
  assumes "0 < x"
  shows "2 ^ 52 \<le> round_half_even (x / 2 powi (binade x - 52))"
    and "round_half_even (x / 2 powi (binade x - 52)) \<le> 2 ^ 53"
proof -
  note s = scaled_bounds [OF assms]
  have "round_half_even (of_int (2 ^ 52)) \<le> round_half_even (x / 2 powi (binade x - 52))"
    by (rule round_half_even_mono) (use s(1) in simp)
  then show "2 ^ 52 \<le> round_half_even (x / 2 powi (binade x - 52))"
    by (simp only: round_half_even_of_int)
  have "round_half_even (x / 2 powi (binade x - 52)) \<le> round_half_even (of_int (2 ^ 53))"
    by (rule round_half_even_mono) (use s(2) in simp)
  then show "round_half_even (x / 2 powi (binade x - 52)) \<le> 2 ^ 53"
    by (simp only: round_half_even_of_int)
qed

lemma rnd_abs_err:
  assumes "0 < x"
  shows "\<bar>rnd x - x\<bar> \<le> 2 powi (binade x - 53)"
proof -
  define u :: rat where "u = 2 powi (binade x - 52)"
  have u: "0 < u" by (simp add: u_def)
  have "rnd x - x = (of_int (round_half_even (x / u)) - x / u) * u"
    using u by (simp add: rnd_pos_eq [OF assms] u_def algebra_simps)
  then have "\<bar>rnd x - x\<bar> = \<bar>of_int (round_half_even (x / u)) - x / u\<bar> * u"
    using u by (simp add: abs_mult)
  also have "\<dots> \<le> (1 / 2) * u"
    by (rule mult_right_mono [OF round_half_even_close]) (use u in simp)
  also have "\<dots> = 2 powi (binade x - 53)"
    unfolding u_def by (rule p2_half)
  finally show ?thesis .
qed

lemma rnd_rel_err:
  assumes "0 \<le> x"
  shows "\<bar>rnd x - x\<bar> \<le> x / 2 ^ 53"
proof (cases "x = 0")
  case True
  then show ?thesis by simp
next
  case False
  with assms have pos: "0 < x" by simp
  have "(2::rat) powi (binade x - 53) = 2 powi (binade x) / 2 ^ 53"
    using power_int_diff [of "2::rat" "binade x" 53] by simp
  also have "\<dots> \<le> x / 2 ^ 53"
    using binade_bounds(1) [OF pos] by (simp add: divide_right_mono)
  finally show ?thesis using rnd_abs_err [OF pos] by linarith
qed

lemma rnd_lower: "0 \<le> x \<Longrightarrow> x * (1 - 1 / 2 ^ 53) \<le> rnd x"
proof -
  assume "0 \<le> x"
  then have "x - rnd x \<le> x / 2 ^ 53" using rnd_rel_err [of x] by linarith
  then show ?thesis by (simp add: algebra_simps)
qed

lemma rnd_upper: "0 \<le> x \<Longrightarrow> rnd x \<le> x * (1 + 1 / 2 ^ 53)"
proof -
  assume "0 \<le> x"
  then have "rnd x - x \<le> x / 2 ^ 53" using rnd_rel_err [of x] by linarith
  then show ?thesis by (simp add: algebra_simps)
qed

lemma rnd_nonneg: "0 \<le> x \<Longrightarrow> 0 \<le> rnd x"
proof -
  assume x: "0 \<le> x"
  have "0 \<le> x * (1 - 1 / 2 ^ 53)" using x by simp
  with rnd_lower [OF x] show ?thesis by linarith
qed


lemma rnd_exact_pos:
  assumes k: "0 < k" "k < 2 ^ 53"
  shows "rnd (of_int k * 2 powi j) = of_int k * 2 powi j"
proof -
  define x :: rat where "x = of_int k * 2 powi j"
  have pos: "0 < x" using k(1) by (simp add: x_def)
  define e where "e = binade x"
  have "(of_int k :: rat) < of_int (2 ^ 53)" using k(2) by (simp only: of_int_less_iff)
  then have "x < 2 ^ 53 * 2 powi j" by (simp add: x_def)
  also have "\<dots> = 2 powi (53 + j)"
    using p2_add [of 53 j] by simp
  finally have "2 powi e < (2::rat) powi (53 + j)"
    using binade_bounds(1) [OF pos] unfolding e_def by linarith
  then have "e < 53 + j" by (rule p2_less)
  then have d: "0 \<le> j - (e - 52)" by simp
  have "x / 2 powi (e - 52) = of_int k * 2 powi (j - (e - 52))"
    unfolding x_def using power_int_diff [of "2::rat" j "e - 52"] by simp
  also have "\<dots> = of_int (k * 2 ^ nat (j - (e - 52)))"
    using d by (simp add: power_int_def)
  finally have sc: "x / 2 powi (e - 52) = of_int (k * 2 ^ nat (j - (e - 52)))" .
  have "rnd x = x / 2 powi (e - 52) * 2 powi (e - 52)"
    unfolding rnd_pos_eq [OF pos] e_def [symmetric]
    by (simp only: sc round_half_even_of_int)
  then show ?thesis by (simp add: x_def)
qed

lemma rnd_repr:
  assumes "0 < x"
  shows "\<exists>k j. 0 < k \<and> k < 2 ^ 53 \<and> rnd x = of_int k * 2 powi j"
proof -
  define m where "m = round_half_even (x / 2 powi (binade x - 52))"
  note mb = mantissa_bounds [OF assms, folded m_def]
  have r: "rnd x = of_int m * 2 powi (binade x - 52)"
    unfolding m_def by (rule rnd_pos_eq [OF assms])
  show ?thesis
  proof (cases "m = 2 ^ 53")
    case True
    have "rnd x = 2 ^ 53 * 2 powi (binade x - 52)"
      unfolding r True by simp
    also have "\<dots> = 2 powi (binade x + 1)" by (rule p2_shift53)
    also have "\<dots> = 2 ^ 52 * 2 powi (binade x + 1 - 52)" by (rule p2_shift52 [symmetric])
    finally have "rnd x = of_int (2 ^ 52) * 2 powi (binade x + 1 - 52)" by simp
    moreover have "(0::int) < 2 ^ 52" "(2::int) ^ 52 < 2 ^ 53" by simp_all
    ultimately show ?thesis by blast
  next
    case False
    with mb have "0 < m" "m < 2 ^ 53" by auto
    with r show ?thesis by blast
  qed
qed

lemma rnd_idem: "rnd (rnd x) = rnd x"
proof -
  have pos: "rnd (rnd y) = rnd y" if "0 < y" for y
  proof -
    from rnd_repr [OF that] obtain k j where "0 < k" "k < 2 ^ 53" "rnd y = of_int k * 2 powi j"
      by blast
    then show ?thesis using rnd_exact_pos [of k j] by simp
  qed
  consider "0 < x" | "x = 0" | "0 < - x" by linarith
  then show ?thesis
  proof cases
    case 1 then show ?thesis by (rule pos)
  next
    case 2 then show ?thesis by simp
  next
    case 3
    from pos [OF 3] show ?thesis by (simp add: rnd_minus)
  qed
qed

lemma rnd_range:
  assumes "0 < x"
  shows "2 powi (binade x) \<le> rnd x" and "rnd x \<le> 2 powi (binade x + 1)"
proof -
  define u :: rat where "u = 2 powi (binade x - 52)"
  define m where "m = round_half_even (x / u)"
  note mb = mantissa_bounds [OF assms, folded u_def m_def]
  have u: "0 < u" by (simp add: u_def)
  have r: "rnd x = of_int m * u"
    by (simp add: rnd_pos_eq [OF assms] m_def u_def)
  have "(of_int (2 ^ 52) :: rat) \<le> of_int m" using mb(1) by (simp only: of_int_le_iff)
  then have "2 ^ 52 * u \<le> of_int m * u" using u by simp
  moreover have "2 ^ 52 * u = 2 powi (binade x)"
    unfolding u_def by (rule p2_shift52)
  ultimately show "2 powi (binade x) \<le> rnd x" by (simp add: r)
  have "(of_int m :: rat) \<le> of_int (2 ^ 53)" using mb(2) by (simp only: of_int_le_iff)
  then have "of_int m * u \<le> 2 ^ 53 * u" using u by simp
  moreover have "2 ^ 53 * u = 2 powi (binade x + 1)"
    unfolding u_def by (rule p2_shift53)
  ultimately show "rnd x \<le> 2 powi (binade x + 1)" by (simp add: r)
qed

lemma binade_mono:
  assumes "0 < x" "x \<le> y" shows "binade x \<le> binade y"
proof -
  have y: "0 < y" using assms by linarith
  have "2 powi (binade x) < (2::rat) powi (binade y + 1)"
    using binade_bounds(1) [OF assms(1)] binade_bounds(2) [OF y] assms(2) by linarith
  then have "binade x < binade y + 1" by (rule p2_less)
  then show ?thesis by simp
qed

lemma rnd_mono_pos:
  assumes "0 < x" "x \<le> y" shows "rnd x \<le> rnd y"
proof -
  have y: "0 < y" using assms by linarith
  show ?thesis
  proof (cases "binade x = binade y")
    case True
    have "round_half_even (x / 2 powi (binade y - 52)) \<le> round_half_even (y / 2 powi (binade y - 52))"
      by (rule round_half_even_mono) (use assms(2) in \<open>simp add: divide_right_mono\<close>)
    then have "(of_int (round_half_even (x / 2 powi (binade y - 52))) :: rat)
        \<le> of_int (round_half_even (y / 2 powi (binade y - 52)))"
      by (simp only: of_int_le_iff)
    then show ?thesis
      unfolding rnd_pos_eq [OF assms(1)] rnd_pos_eq [OF y] True
      by (rule mult_right_mono) simp
  next
    case False
    with binade_mono [OF assms] have "binade x + 1 \<le> binade y" by simp
    then have "(2::rat) powi (binade x + 1) \<le> 2 powi (binade y)"
      by (rule power_int_increasing) simp
    with rnd_range(2) [OF assms(1)] rnd_range(1) [OF y] show ?thesis by linarith
  qed
qed

lemma rnd_mono:
  assumes "x \<le> y" shows "rnd x \<le> rnd y"
proof -
  consider "0 < x" | "x \<le> 0" "0 \<le> y" | "y < 0" by linarith
  then show ?thesis
  proof cases
    case 1 then show ?thesis using assms by (rule rnd_mono_pos)
  next
    case 2
    have "rnd x \<le> 0" using rnd_nonneg [of "- x"] 2(1) by (simp add: rnd_minus)
    moreover have "0 \<le> rnd y" using 2(2) by (rule rnd_nonneg)
    ultimately show ?thesis by linarith
  next
    case 3
    have "rnd (- y) \<le> rnd (- x)" by (rule rnd_mono_pos) (use 3 assms in auto)
    then show ?thesis by (simp add: rnd_minus)
  qed
qed

subsection \<open>Integers, literals and products\<close>

lemma rnd_of_int_small:
  assumes "0 \<le> k" "k \<le> 2 ^ 53"
  shows "rnd (of_int k) = of_int k"
proof -
  consider "k = 0" | "0 < k" "k < 2 ^ 53" | "k = 2 ^ 53" using assms by linarith
  then show ?thesis
  proof cases
    case 1 then show ?thesis by simp
  next
    case 2
    from rnd_exact_pos [OF 2, of 0] show ?thesis by simp
  next
    case 3
    have "(0::int) < 2 ^ 52" "(2::int) ^ 52 < 2 ^ 53" by simp_all
    from rnd_exact_pos [OF this, of 1] show ?thesis by (simp add: 3)
  qed
qed

lemma rnd_of_int_integral_pos:
  assumes "0 < v"
  shows "\<exists>k. rnd (of_int v) = of_int k"
proof (cases "v < 2 ^ 53")
  case True
  with assms have "rnd (of_int v) = of_int v" by (intro rnd_of_int_small) auto
  then show ?thesis by blast
next
  case False
  define x :: rat where "x = of_int v"
  have pos: "0 < x" using assms by (simp add: x_def)
  have "(of_int (2 ^ 53) :: rat) \<le> of_int v" using False by (simp only: of_int_le_iff not_less)
  then have "(2::rat) powi 53 \<le> x" by (simp add: x_def)
  also have "x < 2 powi (binade x + 1)" by (rule binade_bounds(2) [OF pos])
  finally have "53 < binade x + 1" by (rule p2_less)
  then have e: "0 \<le> binade x - 52" by simp
  have "(2::rat) powi (binade x - 52) = of_int (2 ^ nat (binade x - 52))"
    using e by (simp add: power_int_def)
  then have "rnd x = of_int (round_half_even (x / 2 powi (binade x - 52)) * 2 ^ nat (binade x - 52))"
    unfolding rnd_pos_eq [OF pos] by simp
  then show ?thesis unfolding x_def by blast
qed

lemma rnd_of_int_integral: "\<exists>k. rnd (of_int v) = of_int k"
proof -
  consider "0 < v" | "v = 0" | "0 < - v" by linarith
  then show ?thesis
  proof cases
    case 1 then show ?thesis by (rule rnd_of_int_integral_pos)
  next
    case 2 then show ?thesis by (simp add: exI [of _ 0])
  next
    case 3
    from rnd_of_int_integral_pos [OF 3] obtain k where "rnd (of_int (- v)) = of_int k" by blast
    then have "rnd (of_int v) = of_int (- k)" using rnd_minus [of "of_int v"] by simp
    then show ?thesis by blast
  qed
qed

lemma parseInt_integral: "of_int (parseInt v) = rnd (of_int v)"
proof -
  obtain k where k: "rnd (of_int v) = of_int k" using rnd_of_int_integral by blast
  show ?thesis unfolding parseInt_def k by simp
qed

lemma parseInt_double: "rnd (of_int (parseInt v)) = of_int (parseInt v)"
  unfolding parseInt_integral by (rule rnd_idem)


lemma parseInt_nonneg: "0 \<le> v \<Longrightarrow> 0 \<le> parseInt v"
proof -
  assume "0 \<le> v"
  then have "(0::rat) \<le> rnd (of_int v)" by (intro rnd_nonneg) simp
  then have "(0::rat) \<le> of_int (parseInt v)" by (simp only: parseInt_integral)
  then show ?thesis by simp
qed


lemma literal_half: "literal (5 / 10) = 1 / 2"
proof -
  have "rnd (of_int 1 * 2 powi (- 1)) = of_int 1 * 2 powi (- 1)"
    by (rule rnd_exact_pos) simp_all
  then show ?thesis by (simp add: literal_def power_int_minus)
qed

lemma rnd_1: "rnd 1 = 1"
  using rnd_of_int_small [of 1] by simp

lemma literal_mono: "a \<le> b \<Longrightarrow> literal a \<le> literal b"
  unfolding literal_def by (rule rnd_mono)

lemma literal_nonneg: "0 \<le> a \<Longrightarrow> 0 \<le> literal a"
  unfolding literal_def by (rule rnd_nonneg)

lemma fmul_mono: "0 \<le> n \<Longrightarrow> a \<le> b \<Longrightarrow> fmul n a \<le> fmul n b"
  unfolding fmul_def by (intro rnd_mono mult_left_mono)

lemma fmul_nonneg: "0 \<le> n \<Longrightarrow> 0 \<le> a \<Longrightarrow> 0 \<le> fmul n a"
  unfolding fmul_def by (intro rnd_nonneg mult_nonneg_nonneg)

lemma fmul_below_len:
  assumes "0 < n" "0 \<le> a" "a \<le> 1 / 2"
  shows "Math_floor (fmul (of_nat n) a) \<le> int n - 1"
proof -
  have n: "(0::rat) < of_nat n" using assms(1) by simp
  have "fmul (of_nat n) a \<le> of_nat n * a * (1 + 1 / 2 ^ 53)"
    unfolding fmul_def by (rule rnd_upper) (use assms(2) in simp)
  also have "\<dots> \<le> of_nat n * (1 / 2) * (1 + 1 / 2 ^ 53)"
    using assms(3) by (intro mult_right_mono mult_left_mono) simp_all
  also have "\<dots> < of_nat n" using n by simp
  finally have "fmul (of_nat n) a < of_int (int n)" by simp
  then have "\<lfloor>fmul (of_nat n) a\<rfloor> < int n" by (simp only: floor_less_iff)
  then show ?thesis by (simp add: Math_floor_def)
qed

subsection \<open>Percentiles, indices and exact differences\<close>

lemma percentiles_ordered:
  assumes "percentiles c = (pS, pM, pF)"
  shows "0 \<le> pS" and "pS \<le> pM" and "pM \<le> pF" and "pM \<le> 1 / 2"
proof -
  have h: "literal (4 / 10) \<le> 1 / 2" "literal (45 / 100) \<le> 1 / 2" "literal (5 / 10) \<le> 1 / 2"
    using literal_mono [of "4 / 10" "5 / 10"] literal_mono [of "45 / 100" "5 / 10"]
    unfolding literal_half by simp_all
  from assms consider
      "pS = literal (1 / 10)" "pM = literal (4 / 10)" "pF = literal (7 / 10)"
    | "pS = literal (15 / 100)" "pM = literal (45 / 100)" "pF = literal (75 / 100)"
    | "pS = literal (2 / 10)" "pM = literal (5 / 10)" "pF = literal (8 / 10)"
    unfolding percentiles_def by (auto split: if_splits)
  then show "0 \<le> pS" and "pS \<le> pM" and "pM \<le> pF" and "pM \<le> 1 / 2"
    using h by (cases; simp add: literal_mono literal_nonneg)+
qed

lemma tierIndices_range:
  assumes n: "0 < n" and p: "0 \<le> pS" "pS \<le> pM" "pM \<le> pF" "pM \<le> 1 / 2"
    and t: "tierIndices n (pS, pM, pF) = (s, m, f)"
  shows "0 \<le> s" and "s \<le> m" and "m \<le> f" and "f \<le> int n - 1"
proof -
  have s: "s = max 0 (Math_floor (fmul (of_nat n) pS) - 1)"
    and m: "m = Math_floor (fmul (of_nat n) pM)"
    and f: "f = min (int n - 1) (Math_floor (fmul (of_nat n) pF))"
    using t by (simp_all add: tierIndices_def)
  have nn: "(0::rat) \<le> of_nat n" by simp
  have pM0: "0 \<le> pM" using p by linarith
  have m0: "0 \<le> m"
    unfolding m Math_floor_def using fmul_nonneg [OF nn pM0] by simp
  have sm: "Math_floor (fmul (of_nat n) pS) \<le> m"
    unfolding m Math_floor_def by (intro floor_mono fmul_mono nn p)
  have mf: "m \<le> Math_floor (fmul (of_nat n) pF)"
    unfolding m Math_floor_def by (intro floor_mono fmul_mono nn p)
  have mn: "m \<le> int n - 1"
    unfolding m by (rule fmul_below_len [OF n pM0 p(4)])
  show "0 \<le> s" unfolding s by simp
  show "s \<le> m" unfolding s using sm m0 by simp
  show "m \<le> f" unfolding f using mf mn by simp
  show "f \<le> int n - 1" unfolding f by simp
qed








section \<open>The extraction loop and the selection\<close>

lemma pushed_nil: "pushed st [] = st"
  by (simp add: pushed_def)

lemma pushed_pushed: "pushed (pushed st A) B = pushed st (A @ B)"
  by (simp add: pushed_def)

lemma push_tx_pushed: "push_tx i ts st tx = pushed st (spec_sample i ts tx)"
  by (cases "gasPrice tx")
    (auto simp: push_tx_def spec_sample_def pushed_def carries_payload_def Let_def)

lemma foldl_push_tx:
  "foldl (push_tx i ts) st txs = pushed st (concat (map (spec_sample i ts) txs))"
proof (induction txs arbitrary: st)
  case Nil
  show ?case by (simp add: pushed_nil)
next
  case (Cons tx txs)
  have "foldl (push_tx i ts) st (tx # txs) = foldl (push_tx i ts) (push_tx i ts st tx) txs"
    by simp
  also have "\<dots> = pushed (push_tx i ts st tx) (concat (map (spec_sample i ts) txs))"
    by (rule Cons.IH)
  also have "\<dots> = pushed st (spec_sample i ts tx @ concat (map (spec_sample i ts) txs))"
    by (simp only: push_tx_pushed pushed_pushed)
  finally show ?case by simp
qed

lemma push_block_pushed: "push_block i st b = pushed st (block_samples i b)"
  by (simp add: push_block_def block_samples_def foldl_push_tx pushed_nil
      split: option.splits)

lemma scan_blocks_pushed: "scan_blocks i bs st = pushed st (spec_samples i bs)"
proof (induction bs arbitrary: i st)
  case Nil
  show ?case by (simp add: pushed_nil)
next
  case (Cons b bs)
  show ?case by (simp add: Cons.IH push_block_pushed pushed_pushed)
qed

lemma scan_blocks_eq:
  "scan_blocks 0 blocks no_samples =
     \<lparr>gasPrices = spec_samples 0 blocks,
      simple = map price (filter (\<lambda>s. \<not> isContractCall s) (spec_samples 0 blocks)),
      contract = map price (filter isContractCall (spec_samples 0 blocks))\<rparr>"
  by (simp add: scan_blocks_pushed pushed_def no_samples_def)

lemma primaryPrices_sorted: "sorted (primaryPrices ex)"
  by (simp add: primaryPrices_def Let_def)

lemma primaryPrices_nonempty:
  assumes "gasPrices ex \<noteq> []" shows "primaryPrices ex \<noteq> []"
proof -
  have "length (sort (map price (gasPrices ex))) = length (gasPrices ex)" by simp
  then have "sort (map price (gasPrices ex)) \<noteq> []" using assms by (metis length_0_conv)
  then show ?thesis by (auto simp: primaryPrices_def Let_def)
qed

lemma array_get_Some:
  assumes "0 \<le> i" "i \<le> int (length xs) - 1"
  shows "array_get xs i = Some (xs ! nat i)"
  using assms by (simp add: array_get_def)

lemma selectTiers_sorted:
  assumes "sorted ps" "ps \<noteq> []"
  shows "\<exists>lo mid hi. selectTiers ps = Some (lo, mid, hi) \<and> lo \<le> mid \<and> mid \<le> hi
           \<and> lo \<in> set ps \<and> mid \<in> set ps \<and> hi \<in> set ps"
proof -
  obtain pS pM pF where pc: "percentiles (congestionLevel ps) = (pS, pM, pF)"
    by (cases "percentiles (congestionLevel ps)")
  obtain s m f where t: "tierIndices (length ps) (pS, pM, pF) = (s, m, f)"
    by (cases "tierIndices (length ps) (pS, pM, pF)")
  have n: "0 < length ps" using assms(2) by simp
  note r = tierIndices_range [OF n percentiles_ordered [OF pc] t]
  have b: "0 \<le> s" "0 \<le> m" "0 \<le> f"
    "s \<le> int (length ps) - 1" "m \<le> int (length ps) - 1" "f \<le> int (length ps) - 1"
    using r by linarith+
  have lt: "nat s < length ps" "nat m < length ps" "nat f < length ps"
    using b by linarith+
  have sel: "selectTiers ps = Some (ps ! nat s, ps ! nat m, ps ! nat f)"
    unfolding selectTiers_def pc t using b by (simp add: array_get_Some)
  have "ps ! nat s \<le> ps ! nat m"
    by (rule sorted_nth_mono [OF assms(1)]) (use r b lt in auto)
  moreover have "ps ! nat m \<le> ps ! nat f"
    by (rule sorted_nth_mono [OF assms(1)]) (use r b lt in auto)
  ultimately show ?thesis using sel lt by (auto intro: nth_mem)
qed

lemma fallbackTiers_ordered:
  assumes "0 \<le> g"
  shows "fst (fallbackTiers (parseInt g)) \<le> parseInt g"
    and "parseInt g \<le> snd (snd (fallbackTiers (parseInt g)))"
proof -
  define b where "b = parseInt g"
  have b0: "(0::rat) \<le> of_int b" using parseInt_nonneg [OF assms] by (simp add: b_def)
  have bd: "rnd (of_int b) = of_int b" unfolding b_def by (rule parseInt_double)
  have l7: "literal (7 / 10) \<le> 1"
    using literal_mono [of "7 / 10" 1] by (simp add: literal_def rnd_1)
  have l15: "1 \<le> literal (15 / 10)"
    using literal_mono [of 1 "15 / 10"] by (simp add: literal_def rnd_1)
  have "fmul (of_int b) (literal (7 / 10)) \<le> fmul (of_int b) 1"
    by (rule fmul_mono [OF b0 l7])
  then have "fmul (of_int b) (literal (7 / 10)) \<le> of_int b"
    by (simp add: fmul_def bd)
  then have "\<lfloor>fmul (of_int b) (literal (7 / 10))\<rfloor> \<le> b" by (simp add: floor_le_iff)
  then show "fst (fallbackTiers (parseInt g)) \<le> parseInt g"
    by (simp add: fallbackTiers_def Math_floor_def b_def)
  have "fmul (of_int b) 1 \<le> fmul (of_int b) (literal (15 / 10))"
    by (rule fmul_mono [OF b0 l15])
  then have "of_int b \<le> fmul (of_int b) (literal (15 / 10))"
    by (simp add: fmul_def bd)
  then have "b \<le> \<lfloor>fmul (of_int b) (literal (15 / 10))\<rfloor>" by (simp add: le_floor_iff)
  then show "parseInt g \<le> snd (snd (fallbackTiers (parseInt g)))"
    by (simp add: fallbackTiers_def Math_floor_def b_def)
qed

section \<open>The estimation pass\<close>

lemma Promise_all_Inr:
  assumes "Promise_all ps = Inr xs"
  shows "\<forall>x\<in>set ps. \<not> isl (snd x)" and "xs = map (\<lambda>p. projr (snd p)) ps"
proof -
  have f: "filter (\<lambda>p. isl (snd p)) ps = []"
    using assms by (auto simp: Promise_all_def split: list.splits)
  then show "\<forall>x\<in>set ps. \<not> isl (snd x)" by (simp add: filter_empty_conv)
  show "xs = map (\<lambda>p. projr (snd p)) ps"
    using assms f by (simp add: Promise_all_def)
qed

lemma Promise_all_rejects:
  assumes "x \<in> set ps" "isl (snd x)"
  shows "\<exists>y\<in>set ps. isl (snd y) \<and> Promise_all ps = Inl (projl (snd y))"
proof -
  define fs where "fs = filter (\<lambda>p. isl (snd p)) ps"
  have ne: "fs \<noteq> []" using assms by (auto simp: fs_def filter_empty_conv)
  then obtain f fs' where c: "fs = f # fs'" by (cases fs) auto
  have "arg_min_list fst fs \<in> set fs" using ne by (rule arg_min_list_in)
  then have m: "arg_min_list fst fs \<in> set ps" "isl (snd (arg_min_list fst fs))"
    by (auto simp: fs_def)
  have "Promise_all ps = Inl (projl (snd (arg_min_list fst fs)))"
    unfolding Promise_all_def fs_def [symmetric] c by simp
  with m show ?thesis by blast
qed

lemma calculateGasPrices_fetched:
  assumes "getBlockNumber p = Inr latest" "Promise_all (blockPromises p latest) = Inr blocks"
  shows "calculateGasPrices p =
     (if gasPrices (scan_blocks 0 blocks no_samples) \<noteq> [] then
        (case selectTiers (primaryPrices (scan_blocks 0 blocks no_samples)) of
           None \<Rightarrow> Inl (failed undefined_toString)
         | Some t \<Rightarrow> Inr (stringify t))
      else
        (case getGasPrice p of
           Inl msg \<Rightarrow> Inl (failed (''Fallback calculation failed: '' @ msg))
         | Inr g \<Rightarrow> Inr (stringify (fallbackTiers (parseInt g)))))"
  using assms
  by (simp add: calculateGasPrices_def calculateFallbackGasPrices_def Let_def split: sum.splits)

lemma calculateGasPrices_Inr:
  assumes "calculateGasPrices p = Inr r"
  obtains latest blocks where "getBlockNumber p = Inr latest"
    and "Promise_all (blockPromises p latest) = Inr blocks"
proof -
  from assms obtain latest where l: "getBlockNumber p = Inr latest"
    by (cases "getBlockNumber p") (simp_all add: calculateGasPrices_def)
  from assms l obtain blocks where "Promise_all (blockPromises p latest) = Inr blocks"
    by (cases "Promise_all (blockPromises p latest)") (simp_all add: calculateGasPrices_def)
  with l that show ?thesis by blast
qed

lemma selection_succeeds:
  assumes "gasPrices ex \<noteq> []"
  shows "\<exists>lo mid hi. selectTiers (primaryPrices ex) = Some (lo, mid, hi) \<and> lo \<le> mid \<and> mid \<le> hi
           \<and> lo \<in> set (primaryPrices ex) \<and> mid \<in> set (primaryPrices ex)
           \<and> hi \<in> set (primaryPrices ex)"
  by (rule selectTiers_sorted [OF primaryPrices_sorted primaryPrices_nonempty [OF assms]])

section \<open>The claims\<close>

text \<open>
  C1. Every result the estimator returns, from tier selection or from the fallback,
  renders three numbers with safeLow \<le> standard \<le> fast. The base price of the fallback
  is the chain's current gas price, an unsigned quantity.
\<close>

theorem tiers_ordered:
  assumes "calculateGasPrices p = Inr r"
    and "\<forall>g. getGasPrice p = Inr g \<longrightarrow> 0 \<le> g"
  shows "\<exists>lo mid hi. r = stringify (lo, mid, hi) \<and> lo \<le> mid \<and> mid \<le> hi"
proof -
  from assms(1) obtain latest blocks where f: "getBlockNumber p = Inr latest"
    "Promise_all (blockPromises p latest) = Inr blocks"
    by (rule calculateGasPrices_Inr)
  define ex where "ex = scan_blocks 0 blocks no_samples"
  note c = calculateGasPrices_fetched [OF f, folded ex_def]
  show ?thesis
  proof (cases "gasPrices ex = []")
    case False
    from selection_succeeds [OF False] obtain lo mid hi
      where s: "selectTiers (primaryPrices ex) = Some (lo, mid, hi)" "lo \<le> mid" "mid \<le> hi"
      by blast
    have "r = stringify (lo, mid, hi)" using assms(1) False s(1) unfolding c by simp
    with s show ?thesis by blast
  next
    case True
    from assms(1) True obtain g where g: "getGasPrice p = Inr g"
      "r = stringify (fallbackTiers (parseInt g))"
      unfolding c by (cases "getGasPrice p") auto
    have g0: "0 \<le> g" using assms(2) g(1) by blast
    obtain lo mid hi where t: "fallbackTiers (parseInt g) = (lo, mid, hi)"
      by (cases "fallbackTiers (parseInt g)")
    have "mid = parseInt g" using t by (simp add: fallbackTiers_def)
    with fallbackTiers_ordered [OF g0] t have "lo \<le> mid" "mid \<le> hi" by simp_all
    with g(2) t show ?thesis by auto
  qed
qed

theorem tiers_ordered_witness:
  "calculateGasPrices (window_of [transfer 10, transfer 20, contract_call 30, contract_call 60, contract_call 45] 100)
     = Inr \<lparr>safeLow = JSString ''30'', standard = JSString ''45'', fast = JSString ''60''\<rparr>
   \<and> (\<exists>lo mid hi. \<lparr>safeLow = JSString ''30'', standard = JSString ''45'', fast = JSString ''60''\<rparr>
         = stringify (lo, mid, hi) \<and> lo \<le> mid \<and> mid \<le> hi)
   \<and> calculateGasPrices (window_of [] 90)
     = Inr \<lparr>safeLow = JSString ''62'', standard = JSString ''90'', fast = JSString ''135''\<rparr>
   \<and> (\<exists>lo mid hi. \<lparr>safeLow = JSString ''62'', standard = JSString ''90'', fast = JSString ''135''\<rparr>
         = stringify (lo, mid, hi) \<and> lo \<le> mid \<and> mid \<le> hi)"
proof -
  have a: "calculateGasPrices (window_of [transfer 10, transfer 20, contract_call 30, contract_call 60, contract_call 45] 100)
     = Inr \<lparr>safeLow = JSString ''30'', standard = JSString ''45'', fast = JSString ''60''\<rparr>"
    by code_simp
  have a': "\<forall>g. getGasPrice (window_of [transfer 10, transfer 20, contract_call 30, contract_call 60, contract_call 45] 100) = Inr g \<longrightarrow> 0 \<le> g"
    by (simp add: window_of_def)
  have b: "calculateGasPrices (window_of [] 90)
     = Inr \<lparr>safeLow = JSString ''62'', standard = JSString ''90'', fast = JSString ''135''\<rparr>"
    by code_simp
  have b': "\<forall>g. getGasPrice (window_of [] 90) = Inr g \<longrightarrow> 0 \<le> g"
    by (simp add: window_of_def)
  from tiers_ordered [OF a a'] tiers_ordered [OF b b'] a b show ?thesis by blast
qed





subsection \<open>The congestion level at the band boundaries\<close>



















lemma sort_eq_Nil: "sort xs = [] \<longleftrightarrow> xs = []"
proof -
  have "length (sort xs) = length xs" by simp
  then show ?thesis by (metis length_0_conv)
qed

text \<open>
  C4. Whenever the list of contract-call prices is non-empty, whatever its size, its
  sorted copy is the reference sequence; only when it is empty is the sorted list of all
  sampled prices used. The estimate is read from that sequence.
\<close>

theorem contract_calls_preferred:
  assumes "getBlockNumber p = Inr latest"
    and "Promise_all (blockPromises p latest) = Inr blocks"
    and "ex = scan_blocks 0 blocks no_samples"
    and "gasPrices ex \<noteq> []"
  shows "contract ex = map price (filter isContractCall (gasPrices ex))
       \<and> (contract ex \<noteq> [] \<longrightarrow> primaryPrices ex = sort (contract ex))
       \<and> (contract ex = [] \<longrightarrow> primaryPrices ex = sort (map price (gasPrices ex)))
       \<and> (\<exists>t. selectTiers (primaryPrices ex) = Some t \<and> calculateGasPrices p = Inr (stringify t))"
proof -
  have 1: "contract ex = map price (filter isContractCall (gasPrices ex))"
    unfolding assms(3) scan_blocks_eq by simp
  have 2: "contract ex \<noteq> [] \<longrightarrow> primaryPrices ex = sort (contract ex)"
    by (simp add: primaryPrices_def Let_def sort_eq_Nil)
  have 3: "contract ex = [] \<longrightarrow> primaryPrices ex = sort (map price (gasPrices ex))"
    by (simp add: primaryPrices_def Let_def)
  from selection_succeeds [OF assms(4)] obtain t where t: "selectTiers (primaryPrices ex) = Some t"
    by blast
  have "calculateGasPrices p = Inr (stringify t)"
    unfolding calculateGasPrices_fetched [OF assms(1,2)] using assms(4) t
    by (simp add: assms(3))
  with 1 2 3 t show ?thesis by blast
qed

theorem contract_calls_preferred_witness:
  "primaryPrices (scan_blocks 0 (window_blocks
      [transfer 10, transfer 10, transfer 10, transfer 10, transfer 10, contract_call 100]) no_samples)
     = [100]
   \<and> calculateGasPrices (window_of
      [transfer 10, transfer 10, transfer 10, transfer 10, transfer 10, contract_call 100] 7)
     = Inr \<lparr>safeLow = JSString ''100'', standard = JSString ''100'', fast = JSString ''100''\<rparr>"
proof -
  define txs where "txs = [transfer 10, transfer 10, transfer 10, transfer 10, transfer 10, contract_call 100]"
  have a: "getBlockNumber (window_of txs 7) = Inr 5000000"
    by (simp add: window_of_def)
  have b: "Promise_all (blockPromises (window_of txs 7) 5000000) = Inr (window_blocks txs)"
    unfolding txs_def by code_simp
  have c: "gasPrices (scan_blocks 0 (window_blocks txs) no_samples) \<noteq> []"
    unfolding txs_def by code_simp
  have d: "contract (scan_blocks 0 (window_blocks txs) no_samples) = [100]"
    unfolding txs_def by code_simp
  have e: "selectTiers [100] = Some (100, 100, 100)"
    by code_simp
  have f: "stringify (100, 100, 100)
      = \<lparr>safeLow = JSString ''100'', standard = JSString ''100'', fast = JSString ''100''\<rparr>"
    by code_simp
  from contract_calls_preferred [OF a b refl c] d
  have g: "primaryPrices (scan_blocks 0 (window_blocks txs) no_samples) = [100]"
    by simp
  with contract_calls_preferred [OF a b refl c] e f
  have "calculateGasPrices (window_of txs 7)
     = Inr \<lparr>safeLow = JSString ''100'', standard = JSString ''100'', fast = JSString ''100''\<rparr>"
    by auto
  with g show ?thesis unfolding txs_def by blast
qed

lemma Promise_all_resolved:
  assumes "Promise_all (blockPromises p latest) = Inr blocks"
  shows "length blocks = BLOCKS_TO_ANALYZE"
    and "\<forall>i<BLOCKS_TO_ANALYZE. snd (getBlockWithTransactions p (latest - int i)) = Inr (blocks ! i)"
proof -
  note r = Promise_all_Inr [OF assms]
  show len: "length blocks = BLOCKS_TO_ANALYZE"
    unfolding r(2) by (simp add: blockPromises_def)
  show "\<forall>i<BLOCKS_TO_ANALYZE. snd (getBlockWithTransactions p (latest - int i)) = Inr (blocks ! i)"
  proof (intro allI impI)
    fix i assume i: "i < BLOCKS_TO_ANALYZE"
    have m: "getBlockWithTransactions p (latest - int i) \<in> set (blockPromises p latest)"
      using i by (auto simp: blockPromises_def)
    with r(1) have n: "\<not> isl (snd (getBlockWithTransactions p (latest - int i)))" by blast
    have "blocks ! i = projr (snd (getBlockWithTransactions p (latest - int i)))"
      unfolding r(2) using i by (simp add: blockPromises_def)
    with n show "snd (getBlockWithTransactions p (latest - int i)) = Inr (blocks ! i)"
      by (cases "snd (getBlockWithTransactions p (latest - int i))") simp_all
  qed
qed

text \<open>
  C6. If any one of the block fetches of the window rejects, the pass ends with one
  error, the message of a rejected fetch under the prefix of the estimator, and returns
  no estimate, whatever the other fetches delivered; a pass that returns an estimate has
  had all 20 fetches of its window resolve, and the extraction runs on their 20 results.
\<close>

theorem failed_fetch_aborts:
  assumes "getBlockNumber p = Inr latest"
  shows "((\<exists>i<BLOCKS_TO_ANALYZE. isl (snd (getBlockWithTransactions p (latest - int i)))) \<longrightarrow>
          (\<exists>j<BLOCKS_TO_ANALYZE. \<exists>msg. snd (getBlockWithTransactions p (latest - int j)) = Inl msg
              \<and> calculateGasPrices p = Inl (failed msg)))
       \<and> (\<forall>r. calculateGasPrices p = Inr r \<longrightarrow>
            (\<exists>blocks. Promise_all (blockPromises p latest) = Inr blocks
               \<and> length blocks = BLOCKS_TO_ANALYZE
               \<and> (\<forall>i<BLOCKS_TO_ANALYZE.
                    snd (getBlockWithTransactions p (latest - int i)) = Inr (blocks ! i))))"
proof -
  have rej: "\<exists>j<BLOCKS_TO_ANALYZE. \<exists>msg. snd (getBlockWithTransactions p (latest - int j)) = Inl msg
      \<and> calculateGasPrices p = Inl (failed msg)"
    if i: "i < BLOCKS_TO_ANALYZE" "isl (snd (getBlockWithTransactions p (latest - int i)))" for i
  proof -
    have "getBlockWithTransactions p (latest - int i) \<in> set (blockPromises p latest)"
      using i(1) by (auto simp: blockPromises_def)
    from Promise_all_rejects [OF this i(2)] obtain y
      where y: "y \<in> set (blockPromises p latest)" "isl (snd y)"
        "Promise_all (blockPromises p latest) = Inl (projl (snd y))"
      by blast
    from y(1) obtain j where j: "j < BLOCKS_TO_ANALYZE" "y = getBlockWithTransactions p (latest - int j)"
      by (auto simp: blockPromises_def)
    have "snd y = Inl (projl (snd y))" using y(2) by simp
    moreover have "calculateGasPrices p = Inl (failed (projl (snd y)))"
      by (simp add: calculateGasPrices_def assms y(3))
    ultimately show ?thesis using j by blast
  qed
  have res: "\<exists>blocks. Promise_all (blockPromises p latest) = Inr blocks
      \<and> length blocks = BLOCKS_TO_ANALYZE
      \<and> (\<forall>i<BLOCKS_TO_ANALYZE. snd (getBlockWithTransactions p (latest - int i)) = Inr (blocks ! i))"
    if "calculateGasPrices p = Inr r" for r
  proof -
    from that obtain latest' blocks where f: "getBlockNumber p = Inr latest'"
      "Promise_all (blockPromises p latest') = Inr blocks"
      by (rule calculateGasPrices_Inr)
    from f(1) assms have "latest' = latest" by simp
    with f(2) Promise_all_resolved [of p latest blocks] show ?thesis by blast
  qed
  from rej res show ?thesis by blast
qed

theorem failed_fetch_aborts_witness:
  "calculateGasPrices (failing_window [transfer 10, contract_call 20] 100)
     = Inl ''Failed to calculate gas prices: timeout''"
proof -
  define p where "p = failing_window [transfer 10, contract_call 20] 100"
  have a: "getBlockNumber p = Inr 5000000"
    by (simp add: p_def failing_window_def window_of_def)
  have b: "(16::nat) < BLOCKS_TO_ANALYZE" by (simp add: BLOCKS_TO_ANALYZE_def)
  have c: "isl (snd (getBlockWithTransactions p (5000000 - int 16)))"
    by (simp add: p_def failing_window_def)
  have d: "snd (getBlockWithTransactions p (5000000 - int j)) = Inl msg \<Longrightarrow> msg = ''timeout''" for j msg
    by (simp add: p_def failing_window_def window_of_def split: if_splits)
  from failed_fetch_aborts [OF a] b c obtain j msg
    where "snd (getBlockWithTransactions p (5000000 - int j)) = Inl msg"
      "calculateGasPrices p = Inl (failed msg)"
    by blast
  with d show ?thesis by (auto simp: p_def failed_def)
qed

lemma spec_sample_nonempty:
  "spec_sample age ts tx \<noteq> [] \<longleftrightarrow> (\<exists>g. gasPrice tx = Some g \<and> 0 < g)"
  by (cases "gasPrice tx") (simp_all add: spec_sample_def)

lemma spec_sample_flag:
  "s \<in> set (spec_sample age ts tx) \<Longrightarrow> isContractCall s = (data tx \<noteq> ''0x'' \<and> 2 < length (data tx))"
  by (cases "gasPrice tx") (auto simp: spec_sample_def carries_payload_def split: if_splits)

lemma carries_payload_marker: "carries_payload (''0x'' @ payload) \<longleftrightarrow> payload \<noteq> []"
  by (cases payload) (simp_all add: carries_payload_def)

text \<open>
  C8. The extraction loop computes the samples of the specification: a transaction
  yields a sample exactly when its price is present and strictly positive (a zero or
  missing price yields none), and a sample counts as a contract call, and its price goes
  to the contract-call list, exactly when the payload is more than the marker \<open>0x\<close>;
  otherwise its price goes to the simple-transfer list.
\<close>

theorem extraction_admits_priced_transactions:
  "scan_blocks 0 blocks no_samples =
     \<lparr>gasPrices = spec_samples 0 blocks,
      simple = map price (filter (\<lambda>s. \<not> isContractCall s) (spec_samples 0 blocks)),
      contract = map price (filter isContractCall (spec_samples 0 blocks))\<rparr>
   \<and> (length (gasPrices (push_tx age ts st tx)) = length (gasPrices st) + 1
        \<longleftrightarrow> (\<exists>g. gasPrice tx = Some g \<and> 0 < g))
   \<and> (length (gasPrices (push_tx age ts st tx)) = length (gasPrices st)
        \<longleftrightarrow> \<not> (\<exists>g. gasPrice tx = Some g \<and> 0 < g))
   \<and> (\<forall>s\<in>set (spec_sample age ts tx).
        isContractCall s = (data tx \<noteq> ''0x'' \<and> 2 < length (data tx)))
   \<and> (\<forall>payload. carries_payload (''0x'' @ payload) = (payload \<noteq> []))
   \<and> \<not> carries_payload ''0x''"
proof -
  have len: "length (gasPrices (push_tx age ts st tx))
      = length (gasPrices st) + length (spec_sample age ts tx)"
    by (simp add: push_tx_pushed pushed_def)
  have one: "length (spec_sample age ts tx) = (if \<exists>g. gasPrice tx = Some g \<and> 0 < g then 1 else 0)"
    by (cases "gasPrice tx") (simp_all add: spec_sample_def)
  have "\<not> carries_payload ''0x''" by (simp add: carries_payload_def)
  then show ?thesis
    using scan_blocks_eq [of blocks] spec_sample_flag [of _ age ts tx] carries_payload_marker
    unfolding len one by auto
qed

theorem extraction_admits_priced_transactions_witness:
  "scan_blocks 0 (one_block [transfer 5, \<lparr>gasPrice = Some 0, data = ''0x''\<rparr>,
       \<lparr>gasPrice = None, data = ''0xa9059cbb''\<rparr>, contract_call 9]) no_samples =
     \<lparr>gasPrices = [\<lparr>price = 5, blockAge = 0, isContractCall = False, sample_timestamp = 1000\<rparr>,
                   \<lparr>price = 9, blockAge = 0, isContractCall = True, sample_timestamp = 1000\<rparr>],
      simple = [5], contract = [9]\<rparr>
   \<and> isContractCall \<lparr>price = 9, blockAge = 0, isContractCall = True, sample_timestamp = 1000\<rparr>
       = (data (contract_call 9) \<noteq> ''0x'' \<and> 2 < length (data (contract_call 9)))"
proof -
  define bs where "bs = one_block [transfer 5, \<lparr>gasPrice = Some 0, data = ''0x''\<rparr>,
       \<lparr>gasPrice = None, data = ''0xa9059cbb''\<rparr>, contract_call 9]"
  have a: "spec_samples 0 bs =
      [\<lparr>price = 5, blockAge = 0, isContractCall = False, sample_timestamp = 1000\<rparr>,
       \<lparr>price = 9, blockAge = 0, isContractCall = True, sample_timestamp = 1000\<rparr>]"
    unfolding bs_def by code_simp
  have b: "\<lparr>price = 9, blockAge = 0, isContractCall = True, sample_timestamp = 1000\<rparr>
      \<in> set (spec_sample 0 1000 (contract_call 9))"
    by code_simp
  from extraction_admits_priced_transactions [of bs 0 1000 no_samples "contract_call 9"] a b
  show ?thesis unfolding bs_def by auto
qed

text \<open>
  C9, as the specification states it, fails: the estimator itself converts. A pass with
  an empty window and base price 100 returns the strings 70, 100 and 150, not numbers.
\<close>

theorem estimator_returns_numbers_counterexample:
  "calculateGasPrices (window_of [] 100)
     = Inr \<lparr>safeLow = JSString ''70'', standard = JSString ''100'', fast = JSString ''150''\<rparr>
   \<and> calculateFallbackGasPrices (window_of [] 100)
     = Inr \<lparr>safeLow = JSString ''70'', standard = JSString ''100'', fast = JSString ''150''\<rparr>
   \<and> JSString ''70'' \<noteq> JSNumber 70 \<and> JSString ''100'' \<noteq> JSNumber 100
   \<and> JSString ''150'' \<noteq> JSNumber 150"
proof -
  have "calculateGasPrices (window_of [] 100)
     = Inr \<lparr>safeLow = JSString ''70'', standard = JSString ''100'', fast = JSString ''150''\<rparr>"
    by code_simp
  moreover have "calculateFallbackGasPrices (window_of [] 100)
     = Inr \<lparr>safeLow = JSString ''70'', standard = JSString ''100'', fast = JSString ''150''\<rparr>"
    by code_simp
  ultimately show ?thesis by simp
qed

text \<open>
  C9, amended. Both \<open>calculateGasPrices\<close> and \<open>calculateFallbackGasPrices\<close> return the
  three tiers as strings, each the \<open>toString\<close> rendering of the numeric tier; the
  conversion happens inside the estimator.
\<close>

theorem estimator_returns_strings:
  "(calculateGasPrices p = Inr r \<longrightarrow>
      (\<exists>lo mid hi. safeLow r = JSString (Number_toString lo)
         \<and> standard r = JSString (Number_toString mid) \<and> fast r = JSString (Number_toString hi)))
   \<and> (calculateFallbackGasPrices p = Inr r \<longrightarrow>
      (\<exists>lo mid hi. safeLow r = JSString (Number_toString lo)
         \<and> standard r = JSString (Number_toString mid) \<and> fast r = JSString (Number_toString hi)))"
proof -
  have s: "\<exists>lo mid hi. safeLow (stringify t) = JSString (Number_toString lo)
         \<and> standard (stringify t) = JSString (Number_toString mid)
         \<and> fast (stringify t) = JSString (Number_toString hi)" for t
    by (cases t) (auto simp: stringify_def)
  have 1: "\<exists>t. r = stringify t" if "calculateFallbackGasPrices p = Inr r"
  proof (cases "getGasPrice p")
    case (Inl msg)
    with that show ?thesis by (simp add: calculateFallbackGasPrices_def)
  next
    case (Inr g)
    with that have "r = stringify (fallbackTiers (parseInt g))"
      by (simp add: calculateFallbackGasPrices_def)
    then show ?thesis ..
  qed
  have 2: "\<exists>t. r = stringify t" if c: "calculateGasPrices p = Inr r"
  proof -
    from c obtain latest blocks where f: "getBlockNumber p = Inr latest"
      "Promise_all (blockPromises p latest) = Inr blocks"
      by (rule calculateGasPrices_Inr)
    show ?thesis
    proof (cases "gasPrices (scan_blocks 0 blocks no_samples) = []")
      case True
      with c obtain g where "r = stringify (fallbackTiers (parseInt g))"
        unfolding calculateGasPrices_fetched [OF f] by (cases "getGasPrice p") auto
      then show ?thesis ..
    next
      case False
      with c obtain t where "r = stringify t"
        unfolding calculateGasPrices_fetched [OF f]
        by (cases "selectTiers (primaryPrices (scan_blocks 0 blocks no_samples))") auto
      then show ?thesis ..
    qed
  qed
  from 1 2 s show ?thesis by blast
qed

theorem estimator_returns_strings_witness:
  "calculateGasPrices (window_of [transfer 60000000, contract_call 65000000] 100)
     = Inr \<lparr>safeLow = JSString ''65000000'', standard = JSString ''65000000'', fast = JSString ''65000000''\<rparr>
   \<and> (\<exists>lo mid hi. JSString ''65000000'' = JSString (Number_toString lo)
         \<and> JSString ''65000000'' = JSString (Number_toString mid)
         \<and> JSString ''65000000'' = JSString (Number_toString hi))
   \<and> calculateFallbackGasPrices (window_of [] 60000000)
     = Inr \<lparr>safeLow = JSString ''42000000'', standard = JSString ''60000000'', fast = JSString ''90000000''\<rparr>
   \<and> (\<exists>lo mid hi. JSString ''42000000'' = JSString (Number_toString lo)
         \<and> JSString ''60000000'' = JSString (Number_toString mid)
         \<and> JSString ''90000000'' = JSString (Number_toString hi))"
proof -
  have a: "calculateGasPrices (window_of [transfer 60000000, contract_call 65000000] 100)
     = Inr \<lparr>safeLow = JSString ''65000000'', standard = JSString ''65000000'', fast = JSString ''65000000''\<rparr>"
    by code_simp
  have b: "calculateFallbackGasPrices (window_of [] 60000000)
     = Inr \<lparr>safeLow = JSString ''42000000'', standard = JSString ''60000000'', fast = JSString ''90000000''\<rparr>"
    by code_simp
  from estimator_returns_strings [of "window_of [transfer 60000000, contract_call 65000000] 100"
      "\<lparr>safeLow = JSString ''65000000'', standard = JSString ''65000000'', fast = JSString ''65000000''\<rparr>"] a
  have a': "\<exists>lo mid hi. JSString ''65000000'' = JSString (Number_toString lo)
         \<and> JSString ''65000000'' = JSString (Number_toString mid)
         \<and> JSString ''65000000'' = JSString (Number_toString hi)"
    by simp
  from estimator_returns_strings [of "window_of [] 60000000"
      "\<lparr>safeLow = JSString ''42000000'', standard = JSString ''60000000'', fast = JSString ''90000000''\<rparr>"] b
  have b': "\<exists>lo mid hi. JSString ''42000000'' = JSString (Number_toString lo)
         \<and> JSString ''60000000'' = JSString (Number_toString mid)
         \<and> JSString ''90000000'' = JSString (Number_toString hi)"
    by simp
  from a a' b b' show ?thesis by blast
qed

subsection \<open>What the estimate depends on\<close>











subsection \<open>Exactness of the tiers\<close>






subsection \<open>Decimal rendering of exact integers\<close>
















subsection \<open>The fallback tiers\<close>




end
